theory Spec2Isabelle
  imports Complex_Main "HOL-Library.Product_Lexorder" "HOL-Library.Multiset"
begin

section \<open>Dates and times of the standard library\<close>

text \<open>
  \<^verbatim>\<open>autosum.py\<close> works on \<^verbatim>\<open>datetime\<close> values of Python's standard library.
  A \<^verbatim>\<open>datetime\<close> carries a calendar date and a time of day with microseconds;
  \<^verbatim>\<open>.date()\<close> and \<^verbatim>\<open>.time()\<close> project the two parts.  Only the library behaviour
  that the program uses is modelled: comparison of times, subtraction of one day from a
  date, and the two \<^verbatim>\<open>strftime\<close> formats.
\<close>

record date =
  year :: nat
  month :: nat
  day :: nat

record time =
  hour :: nat
  minute :: nat
  second :: nat
  microsecond :: nat

record datetime =
  date_part :: date
  time_part :: time

datatype error = OverflowError

definition is_leap :: "nat \<Rightarrow> bool" where
  "is_leap y = (y mod 4 = 0 \<and> (y mod 100 \<noteq> 0 \<or> y mod 400 = 0))"

definition days_in_month :: "nat \<Rightarrow> nat \<Rightarrow> nat" where
  "days_in_month y m =
     (if m = 2 then (if is_leap y then 29 else 28)
      else if m = 4 \<or> m = 6 \<or> m = 9 \<or> m = 11 then 30 else 31)"

text \<open>The values a Python \<^verbatim>\<open>date\<close>, \<^verbatim>\<open>time\<close> or \<^verbatim>\<open>datetime\<close> object can hold
  (the constructors raise \<^verbatim>\<open>ValueError\<close> on anything else).\<close>

definition valid_date :: "date \<Rightarrow> bool" where
  "valid_date d = (1 \<le> year d \<and> year d \<le> 9999 \<and> 1 \<le> month d \<and> month d \<le> 12
     \<and> 1 \<le> day d \<and> day d \<le> days_in_month (year d) (month d))"

definition valid_time :: "time \<Rightarrow> bool" where
  "valid_time t = (hour t < 24 \<and> minute t < 60 \<and> second t < 60 \<and> microsecond t < 1000000)"

definition valid_datetime :: "datetime \<Rightarrow> bool" where
  "valid_datetime dt = (valid_date (date_part dt) \<and> valid_time (time_part dt))"

text \<open>\<^verbatim>\<open>time(h, m, s)\<close>: the microsecond defaults to zero.\<close>

definition mk_time :: "nat \<Rightarrow> nat \<Rightarrow> nat \<Rightarrow> time" where
  "mk_time h m s = \<lparr>hour = h, minute = m, second = s, microsecond = 0\<rparr>"

text \<open>Times compare as the tuples (hour, minute, second, microsecond), lexicographically.\<close>

definition time_key :: "time \<Rightarrow> nat \<times> nat \<times> nat \<times> nat" where
  "time_key t = (hour t, minute t, second t, microsecond t)"

definition time_le :: "time \<Rightarrow> time \<Rightarrow> bool" where
  "time_le a b = (time_key a \<le> time_key b)"

definition time_lt :: "time \<Rightarrow> time \<Rightarrow> bool" where
  "time_lt a b = (time_key a < time_key b)"

text \<open>
  \<^verbatim>\<open>today - timedelta(days=1)\<close>: the previous calendar day.  The library raises
  \<^verbatim>\<open>OverflowError\<close> when the result would lie before \<^verbatim>\<open>date.min\<close>, 0001-01-01.
\<close>

definition minus_one_day :: "date \<Rightarrow> error + date" where
  "minus_one_day d =
     (if 1 < day d then Inr (d\<lparr>day := day d - 1\<rparr>)
      else if 1 < month d
        then Inr (d\<lparr>month := month d - 1, day := days_in_month (year d) (month d - 1)\<rparr>)
      else if 1 < year d then Inr \<lparr>year = year d - 1, month = 12, day = 31\<rparr>
      else Inl OverflowError)"

definition digit :: "nat \<Rightarrow> char" where
  "digit n = ''0123456789'' ! n"

definition pad2 :: "nat \<Rightarrow> string" where
  "pad2 n = [digit (n div 10 mod 10), digit (n mod 10)]"

definition pad4 :: "nat \<Rightarrow> string" where
  "pad4 n = pad2 (n div 100 mod 100) @ pad2 (n mod 100)"

text \<open>\<^verbatim>\<open>d.strftime("%Y-%m-%d")\<close>, with the year zero-padded to four digits.\<close>

definition strftime_date :: "date \<Rightarrow> string" where
  "strftime_date d = pad4 (year d) @ ''-'' @ pad2 (month d) @ ''-'' @ pad2 (day d)"

text \<open>\<^verbatim>\<open>dt.strftime("%Y-%m-%d %H:%M:%S")\<close>: the microseconds are not printed.\<close>

definition strftime_datetime :: "datetime \<Rightarrow> string" where
  "strftime_datetime dt =
     strftime_date (date_part dt) @ '' '' @ pad2 (hour (time_part dt)) @ '':''
       @ pad2 (minute (time_part dt)) @ '':'' @ pad2 (second (time_part dt))"

section \<open>Shifts\<close>

definition SHIFT1_START :: time where "SHIFT1_START = mk_time 6 0 0"
definition SHIFT1_END :: time where "SHIFT1_END = mk_time 18 0 0"
definition SHIFT2_START :: time where "SHIFT2_START = mk_time 18 1 0"
definition SHIFT2_END :: time where "SHIFT2_END = mk_time 22 0 0"
definition SHIFT3_START :: time where "SHIFT3_START = mk_time 20 1 0"
definition SHIFT3_END :: time where "SHIFT3_END = mk_time 6 0 0"

text \<open>The four tests of \<^verbatim>\<open>get_shift_and_business_date\<close>, in the order of the source.\<close>

definition in_shift1 :: "time \<Rightarrow> bool" where
  "in_shift1 t = (time_le SHIFT1_START t \<and> time_le t SHIFT1_END)"

definition in_shift2 :: "time \<Rightarrow> bool" where
  "in_shift2 t = (time_le SHIFT2_START t \<and> time_le t SHIFT2_END)"

definition in_shift3_evening :: "time \<Rightarrow> bool" where
  "in_shift3_evening t = time_le SHIFT3_START t"

definition in_shift3_morning :: "time \<Rightarrow> bool" where
  "in_shift3_morning t = time_lt t SHIFT3_END"

text \<open>
  \<^verbatim>\<open>get_shift_and_business_date(now_dt=None)\<close>.  The first argument is the optional
  parameter, the second the reading of \<^verbatim>\<open>datetime.now()\<close> that replaces an omitted
  one (a \<^verbatim>\<open>datetime\<close> object is always truthy).  The result is the pair
  (shift name, business date string).
\<close>

definition get_shift_and_business_date ::
    "datetime option \<Rightarrow> datetime \<Rightarrow> error + (string \<times> string)" where
  "get_shift_and_business_date now_arg clock =
     (let now_dt = (case now_arg of None \<Rightarrow> clock | Some d \<Rightarrow> d);
          t = time_part now_dt;
          today = date_part now_dt
      in if in_shift1 t then Inr (''shift1'', strftime_date today)
         else if in_shift2 t then Inr (''shift2'', strftime_date today)
         else if in_shift3_evening t then Inr (''shift3'', strftime_date today)
         else if in_shift3_morning t then
           (case minus_one_day today of
              Inl e \<Rightarrow> Inl e
            | Inr biz \<Rightarrow> Inr (''shift3'', strftime_date biz))
         else Inr (''shift3'', strftime_date today))"

text \<open>\<^verbatim>\<open>get_today_str()\<close>: the calendar date of the clock reading.\<close>

definition get_today_str :: "datetime \<Rightarrow> string" where
  "get_today_str clock = strftime_date (date_part clock)"

section \<open>Database\<close>

text \<open>
  The three tables of \<^verbatim>\<open>init_db\<close>, each a list of rows in insertion order.
  \<^verbatim>\<open>totals\<close> and \<^verbatim>\<open>old_totals\<close> have the same columns; \<^verbatim>\<open>totals\<close> has the primary key
  (chat_id, date, shift, currency), \<^verbatim>\<open>old_totals\<close> has no key.  Amounts are SQLite
  \<^verbatim>\<open>REAL\<close>s and Python floats in the source; they are modelled as real numbers, so
  rounding is outside the model.  Storage failures (\<^verbatim>\<open>sqlite3.Error\<close>) are outside the
  model as well.
\<close>

record row =
  chat_id :: int
  date_col :: string
  shift :: string
  currency :: string
  total :: real
  invoices :: int

record history_row =
  h_id :: int
  h_chat_id :: int
  h_datetime :: string
  h_business_date :: string
  h_shift :: string
  h_currency :: string
  h_amount :: real

record db =
  totals :: "row list"
  old_totals :: "row list"
  history :: "history_row list"

definition empty_db :: db where
  "empty_db = \<lparr>totals = [], old_totals = [], history = []\<rparr>"

type_synonym key = "int \<times> string \<times> string \<times> string"

definition row_key :: "row \<Rightarrow> key" where
  "row_key r = (chat_id r, date_col r, shift r, currency r)"

definition history_key :: "history_row \<Rightarrow> key" where
  "history_key h = (h_chat_id h, h_business_date h, h_shift h, h_currency h)"

text \<open>The primary key constraint of \<^verbatim>\<open>totals\<close>.\<close>

definition primary_key_ok :: "row list \<Rightarrow> bool" where
  "primary_key_ok rs = distinct (map row_key rs)"

text \<open>\<^verbatim>\<open>float(x or 0)\<close> and \<^verbatim>\<open>int(x or 0)\<close> on a number.\<close>

definition float_or_0 :: "real \<Rightarrow> real" where
  "float_or_0 x = (if x = 0 then 0 else x)"

definition int_or_0 :: "int \<Rightarrow> int" where
  "int_or_0 n = (if n = 0 then 0 else n)"

text \<open>The id of the next row of an \<^verbatim>\<open>AUTOINCREMENT\<close> column.\<close>

definition next_id :: "history_row list \<Rightarrow> int" where
  "next_id hs = foldl max 0 (map h_id hs) + 1"

text \<open>\<^verbatim>\<open>WHERE chat_id = ? AND date = ? AND shift = ?\<close>\<close>

definition at_shift :: "int \<Rightarrow> string \<Rightarrow> string \<Rightarrow> row \<Rightarrow> bool" where
  "at_shift cid d s r = (chat_id r = cid \<and> date_col r = d \<and> shift r = s)"

text \<open>\<^verbatim>\<open>WHERE chat_id = ? AND date = ?\<close>\<close>

definition at_date :: "int \<Rightarrow> string \<Rightarrow> row \<Rightarrow> bool" where
  "at_date cid d r = (chat_id r = cid \<and> date_col r = d)"

section \<open>Recalculate totals\<close>

text \<open>
  \<^verbatim>\<open>SELECT chat_id, business_date, shift, currency, SUM(amount), COUNT(*) FROM history
  GROUP BY chat_id, business_date, shift, currency\<close>: one row for each key that occurs,
  with the sum and the number of the entries of that key.  SQL leaves the order of the
  groups open; the model lists them in the order of \<open>remdups\<close>.
\<close>

definition select_history_grouped :: "history_row list \<Rightarrow> row list" where
  "select_history_grouped hs =
     map (\<lambda>(cid, biz, sh, cur).
            \<lparr>chat_id = cid, date_col = biz, shift = sh, currency = cur,
             total = sum_list (map h_amount (filter (\<lambda>h. history_key h = (cid, biz, sh, cur)) hs)),
             invoices = int (length (filter (\<lambda>h. history_key h = (cid, biz, sh, cur)) hs))\<rparr>)
         (remdups (map history_key hs))"

text \<open>\<^verbatim>\<open>INSERT OR REPLACE INTO totals\<close>: a row with the same primary key is replaced.\<close>

definition insert_or_replace :: "row \<Rightarrow> row list \<Rightarrow> row list" where
  "insert_or_replace r rs = filter (\<lambda>x. row_key x \<noteq> row_key r) rs @ [r]"

definition recalc_totals_from_history :: "db \<Rightarrow> db" where
  "recalc_totals_from_history d =
     (let rows = select_history_grouped (history d)
      in d\<lparr>totals :=
           foldl (\<lambda>acc r. insert_or_replace
                    (r\<lparr>total := float_or_0 (total r), invoices := int_or_0 (invoices r)\<rparr>) acc)
                 [] rows\<rparr>)"

section \<open>Data operations\<close>

text \<open>
  \<^verbatim>\<open>update_total(chat_id, currency, amount)\<close>; the last but one argument is the reading
  of \<^verbatim>\<open>datetime.now()\<close>.  The Python function returns \<^verbatim>\<open>True\<close>; the model returns the
  database after the call.  An exception of the classifier leaves the database untouched.
\<close>

definition update_total :: "int \<Rightarrow> string \<Rightarrow> real \<Rightarrow> datetime \<Rightarrow> db \<Rightarrow> error + db" where
  "update_total cid cur amt now_dt d =
     (case get_shift_and_business_date (Some now_dt) now_dt of
        Inl e \<Rightarrow> Inl e
      | Inr (sh, business_date) \<Rightarrow>
          let entry = \<lparr>h_id = next_id (history d), h_chat_id = cid,
                       h_datetime = strftime_datetime now_dt, h_business_date = business_date,
                       h_shift = sh, h_currency = cur, h_amount = amt\<rparr>;
              k = (cid, business_date, sh, cur);
              totals' =
                (case find (\<lambda>r. row_key r = k) (totals d) of
                   Some r0 \<Rightarrow>
                     map (\<lambda>x. if row_key x = k
                               then x\<lparr>total := total r0 + amt, invoices := invoices r0 + 1\<rparr>
                               else x) (totals d)
                 | None \<Rightarrow>
                     totals d @ [\<lparr>chat_id = cid, date_col = business_date, shift = sh,
                                  currency = cur, total = amt, invoices = 1\<rparr>])
          in Inr (d\<lparr>history := history d @ [entry], totals := totals'\<rparr>))"

text \<open>\<^verbatim>\<open>date_str = date_str or get_today_str()\<close>: \<^verbatim>\<open>None\<close> and the empty string are falsy.\<close>

definition date_or_today :: "string option \<Rightarrow> datetime \<Rightarrow> string" where
  "date_or_today date_arg clock =
     (case date_arg of
        None \<Rightarrow> get_today_str clock
      | Some s \<Rightarrow> if s = [] then get_today_str clock else s)"

text \<open>The dictionary currency \<open>\<mapsto>\<close> (total, invoices) that the two queries return.\<close>

type_synonym result = "string \<rightharpoonup> real \<times> int"

definition initial_data :: result where
  "initial_data = [''USD'' \<mapsto> (0, 0), ''KHR'' \<mapsto> (0, 0)]"

text \<open>The loop \<^verbatim>\<open>for currency, total, invoices in rows: if currency: data[currency] = ...\<close>\<close>

definition collect :: "(string \<times> real \<times> int) list \<Rightarrow> result" where
  "collect rows =
     foldl (\<lambda>data (cur, t, n).
              if cur \<noteq> [] then data(cur \<mapsto> (float_or_0 t, int_or_0 n)) else data)
           initial_data rows"

text \<open>\<^verbatim>\<open>SELECT currency, SUM(total), SUM(invoices) ... GROUP BY currency\<close>\<close>

definition sum_by_currency :: "row list \<Rightarrow> (string \<times> real \<times> int) list" where
  "sum_by_currency rs =
     map (\<lambda>c. (c, sum_list (map total (filter (\<lambda>r. currency r = c) rs)),
                  sum_list (map invoices (filter (\<lambda>r. currency r = c) rs))))
         (remdups (map currency rs))"

text \<open>\<^verbatim>\<open>get_totals(chat_id, date_str=None, shift=None)\<close>; \<^verbatim>\<open>if shift:\<close> is false for
  \<^verbatim>\<open>None\<close> and for the empty string.\<close>

definition get_totals :: "int \<Rightarrow> string option \<Rightarrow> string option \<Rightarrow> datetime \<Rightarrow> db \<Rightarrow> result" where
  "get_totals cid date_arg shift_arg clock d =
     (let date_str = date_or_today date_arg clock;
          rows =
            (if shift_arg \<noteq> None \<and> shift_arg \<noteq> Some []
             then map (\<lambda>r. (currency r, total r, invoices r))
                      (filter (at_shift cid date_str (the shift_arg)) (totals d))
             else sum_by_currency (filter (at_date cid date_str) (totals d)))
      in collect rows)"

text \<open>\<^verbatim>\<open>move_to_old(chat_id, shift, date_str)\<close>\<close>

definition move_to_old :: "int \<Rightarrow> string \<Rightarrow> string \<Rightarrow> db \<Rightarrow> db" where
  "move_to_old cid sh date_str d =
     (let rows = filter (at_shift cid date_str sh) (totals d)
      in if rows \<noteq> []
         then d\<lparr>old_totals := old_totals d @
                   map (\<lambda>r. \<lparr>chat_id = cid, date_col = date_str, shift = sh,
                               currency = currency r, total = float_or_0 (total r),
                               invoices = int_or_0 (invoices r)\<rparr>) rows,
                 totals := map (\<lambda>r. if at_shift cid date_str sh r
                                     then r\<lparr>total := 0, invoices := 0\<rparr> else r) (totals d)\<rparr>
         else d)"

text \<open>\<^verbatim>\<open>get_old_totals(chat_id, date_str=None)\<close>\<close>

definition get_old_totals :: "int \<Rightarrow> string option \<Rightarrow> datetime \<Rightarrow> db \<Rightarrow> result" where
  "get_old_totals cid date_arg clock d =
     (let date_str = date_or_today date_arg clock
      in collect (sum_by_currency (filter (at_date cid date_str) (old_totals d))))"

section \<open>Message flow\<close>

text \<open>
  The branch \<^verbatim>\<open>"New Data"\<close> of \<^verbatim>\<open>handle_message\<close>: the shift and business date come from
  the clock, the current shift is moved to \<^verbatim>\<open>old_totals\<close>, and the dictionary handed to
  \<^verbatim>\<open>send_totals\<close> is the result of \<^verbatim>\<open>get_old_totals\<close>.
\<close>

definition handle_message_new_data :: "int \<Rightarrow> datetime \<Rightarrow> db \<Rightarrow> error + (result \<times> db)" where
  "handle_message_new_data cid clock d =
     (case get_shift_and_business_date None clock of
        Inl e \<Rightarrow> Inl e
      | Inr (shift_now, biz_date_now) \<Rightarrow>
          let d' = move_to_old cid shift_now biz_date_now d;
              totals_shown = get_old_totals cid (Some biz_date_now) clock d'
          in Inr (totals_shown, d'))"

text \<open>The branch \<^verbatim>\<open>"Reset"\<close>:
  \<^verbatim>\<open>UPDATE totals SET total = 0, invoices = 0 WHERE chat_id = ? AND date = ?\<close>\<close>

definition handle_message_reset :: "int \<Rightarrow> datetime \<Rightarrow> db \<Rightarrow> error + db" where
  "handle_message_reset cid clock d =
     (case get_shift_and_business_date None clock of
        Inl e \<Rightarrow> Inl e
      | Inr (shift_now, biz_date_now) \<Rightarrow>
          Inr (d\<lparr>totals := map (\<lambda>r. if at_date cid biz_date_now r
                                     then r\<lparr>total := 0, invoices := 0\<rparr> else r) (totals d)\<rparr>))"

section \<open>Auxiliary notions for the statements\<close>

text \<open>\<^verbatim>\<open>date.min\<close>\<close>

definition date_min :: date where
  "date_min = \<lparr>year = 1, month = 1, day = 1\<rparr>"

text \<open>\<^verbatim>\<open>datetime(y, mo, d, h, mi, s, us)\<close>\<close>

definition at_time :: "nat \<Rightarrow> nat \<Rightarrow> nat \<Rightarrow> nat \<Rightarrow> nat \<Rightarrow> nat \<Rightarrow> nat \<Rightarrow> datetime" where
  "at_time y mo d h mi s us =
     \<lparr>date_part = \<lparr>year = y, month = mo, day = d\<rparr>,
      time_part = \<lparr>hour = h, minute = mi, second = s, microsecond = us\<rparr>\<rparr>"

text \<open>
  The dictionary a query returns, read off the rows it ranges over: per non-empty
  currency, the sum of the totals and of the invoice counts of the rows of that currency,
  and the zero defaults of USD and KHR where there is no row.
\<close>

definition summed :: "row list \<Rightarrow> result" where
  "summed rs c =
     (if c = [] then None
      else if c \<in> currency ` set rs
        then Some (sum_list (map total (filter (\<lambda>r. currency r = c) rs)),
                   sum_list (map invoices (filter (\<lambda>r. currency r = c) rs)))
      else initial_data c)"

text \<open>One iteration of the loop of \<open>collect\<close>.\<close>

definition collect_step :: "result \<Rightarrow> string \<times> real \<times> int \<Rightarrow> result" where
  "collect_step data x = (case x of (cur, t, n) \<Rightarrow> if cur \<noteq> [] then data(cur \<mapsto> (t, n)) else data)"

text \<open>\<^verbatim>\<open>SET total = 0, invoices = 0\<close>\<close>

definition zeroed :: "row \<Rightarrow> row" where
  "zeroed r = r\<lparr>total := 0, invoices := 0\<rparr>"

text \<open>Rows, ledger entries and database states of the example runs.\<close>

definition usd_row :: "string \<Rightarrow> real \<Rightarrow> int \<Rightarrow> row" where
  "usd_row sh t n = \<lparr>chat_id = 1, date_col = ''2024-01-01'', shift = sh, currency = ''USD'',
                      total = t, invoices = n\<rparr>"

definition usd_entry :: "int \<Rightarrow> string \<Rightarrow> string \<Rightarrow> real \<Rightarrow> history_row" where
  "usd_entry i stamp sh a = \<lparr>h_id = i, h_chat_id = 1, h_datetime = stamp,
      h_business_date = ''2024-01-01'', h_shift = sh, h_currency = ''USD'', h_amount = a\<rparr>"

definition db_one_record :: db where
  "db_one_record = \<lparr>totals = [usd_row ''shift1'' 5 1], old_totals = [],
                     history = [usd_entry 1 ''2024-01-01 07:00:00'' ''shift1'' 5]\<rparr>"

definition db_first_closed :: db where
  "db_first_closed = \<lparr>totals = [usd_row ''shift1'' 0 0], old_totals = [usd_row ''shift1'' 5 1],
                       history = [usd_entry 1 ''2024-01-01 07:00:00'' ''shift1'' 5]\<rparr>"

definition db_second_shift :: db where
  "db_second_shift = \<lparr>totals = [usd_row ''shift1'' 0 0, usd_row ''shift2'' 3 1],
                       old_totals = [usd_row ''shift1'' 5 1],
                       history = [usd_entry 1 ''2024-01-01 07:00:00'' ''shift1'' 5,
                                  usd_entry 2 ''2024-01-01 19:00:00'' ''shift2'' 3]\<rparr>"

definition db_night_record :: db where
  "db_night_record =
     \<lparr>totals = [\<lparr>chat_id = 1, date_col = ''2024-01-01'', shift = ''shift3'', currency = ''KHR'',
                  total = 10, invoices = 1\<rparr>],
      old_totals = [],
      history = [\<lparr>h_id = 1, h_chat_id = 1, h_datetime = ''2024-01-02 01:00:00'',
                   h_business_date = ''2024-01-01'', h_shift = ''shift3'', h_currency = ''KHR'',
                   h_amount = 10\<rparr>]\<rparr>"

text \<open>The dictionary shown by a message handler, and the database it leaves.\<close>

definition shown :: "error + (result \<times> db) \<Rightarrow> string \<Rightarrow> (real \<times> int) option" where
  "shown r c = (case r of Inl e \<Rightarrow> None | Inr (res, d) \<Rightarrow> res c)"

definition state_after :: "error + (result \<times> db) \<Rightarrow> db option" where
  "state_after r = (case r of Inl e \<Rightarrow> None | Inr (res, d) \<Rightarrow> Some d)"

section \<open>Sequences of operations\<close>

text \<open>
  The calls that change the database: \<^verbatim>\<open>update_total\<close> (one call for each amount of a
  message), the messages \<^verbatim>\<open>"New Data"\<close> and \<^verbatim>\<open>"Reset"\<close> of a chat, and
  \<^verbatim>\<open>recalc_totals_from_history\<close> (the command \<^verbatim>\<open>/recalc\<close> and the start of the bot).
  Each comes with the reading of the clock at which it runs.  A call that raises leaves
  the database as it was.
\<close>

datatype operation =
    UpdateTotal int string real
  | NewData int
  | Reset int
  | Recalc

fun step :: "db \<Rightarrow> operation \<times> datetime \<Rightarrow> db" where
  "step d (UpdateTotal cid cur amt, clock) =
     (case update_total cid cur amt clock d of Inl e \<Rightarrow> d | Inr d' \<Rightarrow> d')"
| "step d (NewData cid, clock) =
     (case handle_message_new_data cid clock d of Inl e \<Rightarrow> d | Inr (res, d') \<Rightarrow> d')"
| "step d (Reset cid, clock) =
     (case handle_message_reset cid clock d of Inl e \<Rightarrow> d | Inr d' \<Rightarrow> d')"
| "step d (Recalc, clock) = recalc_totals_from_history d"

definition run :: "db \<Rightarrow> (operation \<times> datetime) list \<Rightarrow> db" where
  "run d ops = foldl step d ops"

text \<open>
  The timestamp a ledger entry keeps: \<^verbatim>\<open>strftime("%Y-%m-%d %H:%M:%S")\<close> drops the
  microseconds of the clock reading.
\<close>

definition whole_second :: "datetime \<Rightarrow> datetime" where
  "whole_second dt = dt\<lparr>time_part := (time_part dt)\<lparr>microsecond := 0\<rparr>\<rparr>"

text \<open>A reading strictly inside the second 18:00:00 or the second 22:00:00.\<close>

definition inside_closing_second :: "time \<Rightarrow> bool" where
  "inside_closing_second t =
     (microsecond t \<noteq> 0 \<and> minute t = 0 \<and> second t = 0 \<and> (hour t = 18 \<or> hour t = 22))"

text \<open>The entry was written by an \<^verbatim>\<open>update_total\<close> call of the sequence.\<close>

definition written_by :: "history_row \<Rightarrow> (operation \<times> datetime) list \<Rightarrow> bool" where
  "written_by h ops =
     (\<exists>clock. (UpdateTotal (h_chat_id h) (h_currency h) (h_amount h), clock) \<in> set ops
        \<and> h_datetime h = strftime_datetime clock
        \<and> get_shift_and_business_date (Some clock) clock = Inr (h_shift h, h_business_date h))"

text \<open>A sequence of \<^verbatim>\<open>update_total\<close> calls only.\<close>

definition record_calls :: "(int \<times> string \<times> real \<times> datetime) list \<Rightarrow> (operation \<times> datetime) list" where
  "record_calls cs = map (\<lambda>(cid, cur, amt, clock). (UpdateTotal cid cur amt, clock)) cs"

text \<open>
  The specification's view of the ledger: for a key (account, business date, shift,
  currency), the sum of the amounts and the number of the ledger entries with that key,
  provided there is one.
\<close>

definition ledger_totals :: "history_row list \<Rightarrow> key \<Rightarrow> (real \<times> int) option" where
  "ledger_totals hs k =
     (if k \<in> history_key ` set hs
      then Some (sum_list (map h_amount (filter (\<lambda>h. history_key h = k) hs)),
                 int (length (filter (\<lambda>h. history_key h = k) hs)))
      else None)"

text \<open>The total and invoice count of the \<^verbatim>\<open>totals\<close> row with a key, if there is one.\<close>

definition aggregate_row :: "row list \<Rightarrow> key \<Rightarrow> (real \<times> int) option" where
  "aggregate_row rs k = map_option (\<lambda>r. (total r, invoices r)) (find (\<lambda>r. row_key r = k) rs)"

text \<open>The \<^verbatim>\<open>totals\<close> table agrees with the ledger on every key.\<close>

definition consistent :: "db \<Rightarrow> bool" where
  "consistent d =
     (primary_key_ok (totals d)
      \<and> (\<forall>k. aggregate_row (totals d) k = ledger_totals (history d) k))"

section \<open>The shift classifier\<close>

lemmas shift_bounds = SHIFT1_START_def SHIFT1_END_def SHIFT2_START_def SHIFT2_END_def
  SHIFT3_START_def SHIFT3_END_def mk_time_def

lemmas shift_tests = in_shift1_def in_shift2_def in_shift3_evening_def in_shift3_morning_def
  time_le_def time_lt_def time_key_def

lemma days_in_month_pos: "0 < days_in_month y m"
  by (simp add: days_in_month_def)

lemma minus_one_day_Inr:
  "valid_date d \<Longrightarrow> d \<noteq> date_min \<Longrightarrow> \<exists>y. minus_one_day d = Inr y"
  by (cases d) (auto simp: minus_one_day_def valid_date_def date_min_def)

lemma morning_excludes:
  "in_shift3_morning t \<Longrightarrow> \<not> in_shift1 t \<and> \<not> in_shift2 t \<and> \<not> in_shift3_evening t"
  by (auto simp: shift_tests shift_bounds)

lemma classify_morning:
  "in_shift3_morning (time_part t) \<Longrightarrow> minus_one_day (date_part t) = Inr y \<Longrightarrow>
   get_shift_and_business_date (Some t) clock = Inr (''shift3'', strftime_date y)"
  using morning_excludes[of "time_part t"]
  by (simp add: get_shift_and_business_date_def)

text \<open>
  C3 (as amended).  For every timestamp whose time of day lies in [00:00:00, 06:00:00)
  and whose calendar date is not the earliest date 0001-01-01, the classifier returns
  shift3 with the business date one day before the calendar date; for every timestamp
  whose time of day lies in [06:00:00, 18:00:00] it returns shift1 with the calendar date.
\<close>

theorem classify_morning_and_shift1:
  "(valid_date (date_part t) \<and> date_part t \<noteq> date_min \<and> time_lt (time_part t) (mk_time 6 0 0)
      \<longrightarrow> (\<exists>y. minus_one_day (date_part t) = Inr y \<and>
             get_shift_and_business_date (Some t) clock = Inr (''shift3'', strftime_date y)))
   \<and> (time_le (mk_time 6 0 0) (time_part t) \<and> time_le (time_part t) (mk_time 18 0 0)
      \<longrightarrow> get_shift_and_business_date (Some t) clock
            = Inr (''shift1'', strftime_date (date_part t)))"
proof (intro conjI impI)
  assume h: "valid_date (date_part t) \<and> date_part t \<noteq> date_min
    \<and> time_lt (time_part t) (mk_time 6 0 0)"
  then obtain y where y: "minus_one_day (date_part t) = Inr y"
    using minus_one_day_Inr by blast
  from h have "in_shift3_morning (time_part t)"
    by (simp add: in_shift3_morning_def SHIFT3_END_def)
  with y show "\<exists>y. minus_one_day (date_part t) = Inr y \<and>
      get_shift_and_business_date (Some t) clock = Inr (''shift3'', strftime_date y)"
    using classify_morning by blast
next
  assume "time_le (mk_time 6 0 0) (time_part t) \<and> time_le (time_part t) (mk_time 18 0 0)"
  then have "in_shift1 (time_part t)"
    by (simp add: in_shift1_def SHIFT1_START_def SHIFT1_END_def)
  then show "get_shift_and_business_date (Some t) clock
      = Inr (''shift1'', strftime_date (date_part t))"
    by (simp add: get_shift_and_business_date_def)
qed

lemmas eval_defs = at_time_def get_shift_and_business_date_def shift_tests shift_bounds
  minus_one_day_def days_in_month_def is_leap_def strftime_date_def strftime_datetime_def
  pad4_def pad2_def digit_def valid_date_def valid_time_def valid_datetime_def date_min_def

text \<open>C3, at 2024-03-01 03:00:00 (the day after a leap day) and at 2024-01-01 18:00:00.\<close>

theorem classify_morning_and_shift1_witness:
  "valid_date (date_part (at_time 2024 3 1 3 0 0 0))
   \<and> date_part (at_time 2024 3 1 3 0 0 0) \<noteq> date_min
   \<and> time_lt (time_part (at_time 2024 3 1 3 0 0 0)) (mk_time 6 0 0)
   \<and> get_shift_and_business_date (Some (at_time 2024 3 1 3 0 0 0)) (at_time 2024 3 1 3 0 0 0)
       = Inr (''shift3'', ''2024-02-29'')
   \<and> time_le (mk_time 6 0 0) (time_part (at_time 2024 1 1 18 0 0 0))
   \<and> time_le (time_part (at_time 2024 1 1 18 0 0 0)) (mk_time 18 0 0)
   \<and> get_shift_and_business_date (Some (at_time 2024 1 1 18 0 0 0)) (at_time 2024 3 1 3 0 0 0)
       = Inr (''shift1'', ''2024-01-01'')"
  using classify_morning_and_shift1[of "at_time 2024 3 1 3 0 0 0" "at_time 2024 3 1 3 0 0 0"]
    classify_morning_and_shift1[of "at_time 2024 1 1 18 0 0 0" "at_time 2024 3 1 3 0 0 0"]
  by (simp add: eval_defs)

text \<open>
  C3 as stated fails at 0001-01-01 03:00:00: the time of day lies in [00:00:00, 06:00:00),
  and the classifier raises \<^verbatim>\<open>OverflowError\<close> instead of returning shift3, because the
  date has no previous day.
\<close>

theorem classify_date_min_counterexample:
  "valid_datetime (at_time 1 1 1 3 0 0 0)
   \<and> time_lt (time_part (at_time 1 1 1 3 0 0 0)) (mk_time 6 0 0)
   \<and> get_shift_and_business_date (Some (at_time 1 1 1 3 0 0 0)) (at_time 1 1 1 3 0 0 0)
       = Inl OverflowError"
  by (simp add: eval_defs)

text \<open>
  C4.  Every time of day from 20:01:00 to 22:00:00 passes the test of shift2 and the
  evening test of shift3, and the classifier returns shift2 with the calendar date: the
  tests are tried in the order shift1, shift2, shift3, and the first that holds decides.
\<close>

theorem overlap_is_shift2:
  "time_le (mk_time 20 1 0) (time_part t) \<Longrightarrow> time_le (time_part t) (mk_time 22 0 0) \<Longrightarrow>
   in_shift2 (time_part t) \<and> in_shift3_evening (time_part t)
   \<and> get_shift_and_business_date (Some t) clock = Inr (''shift2'', strftime_date (date_part t))"
  by (auto simp: get_shift_and_business_date_def shift_tests shift_bounds)

text \<open>C4, at 2024-01-01 21:30:00.\<close>

theorem overlap_is_shift2_witness:
  "time_le (mk_time 20 1 0) (time_part (at_time 2024 1 1 21 30 0 0))
   \<and> time_le (time_part (at_time 2024 1 1 21 30 0 0)) (mk_time 22 0 0)
   \<and> in_shift2 (time_part (at_time 2024 1 1 21 30 0 0))
   \<and> in_shift3_evening (time_part (at_time 2024 1 1 21 30 0 0))
   \<and> get_shift_and_business_date (Some (at_time 2024 1 1 21 30 0 0)) (at_time 2024 1 1 21 30 0 0)
       = Inr (''shift2'', ''2024-01-01'')"
  using overlap_is_shift2[of "at_time 2024 1 1 21 30 0 0" "at_time 2024 1 1 21 30 0 0"]
  by (simp add: eval_defs)

text \<open>
  C5.  The claim is that no time of day reaches the final \<^verbatim>\<open>return\<close> of the classifier,
  which the source marks \<^verbatim>\<open># Fallback (shouldn't reach)\<close>.  At 18:00:30 none of the four
  tests holds (shift1 ends at 18:00:00 and shift2 starts at 18:01:00), so the classifier
  returns from the fallback: shift3 with the calendar date.
\<close>

theorem fallback_reached:
  "valid_datetime (at_time 2024 1 1 18 0 30 0)
   \<and> \<not> in_shift1 (time_part (at_time 2024 1 1 18 0 30 0))
   \<and> \<not> in_shift2 (time_part (at_time 2024 1 1 18 0 30 0))
   \<and> \<not> in_shift3_evening (time_part (at_time 2024 1 1 18 0 30 0))
   \<and> \<not> in_shift3_morning (time_part (at_time 2024 1 1 18 0 30 0))
   \<and> get_shift_and_business_date None (at_time 2024 1 1 18 0 30 0)
       = Inr (''shift3'', ''2024-01-01'')"
  by (simp add: eval_defs)

section \<open>Queries and closing a shift\<close>

lemma float_or_0_id [simp]: "float_or_0 x = x"
  by (simp add: float_or_0_def)

lemma int_or_0_id [simp]: "int_or_0 n = n"
  by (simp add: int_or_0_def)

lemma collect_foldl: "collect rows = foldl collect_step initial_data rows"
proof -
  have "collect_step = (\<lambda>data (cur, t, n).
      if cur \<noteq> [] then data(cur \<mapsto> (float_or_0 t, int_or_0 n)) else data)"
    by (intro ext) (simp add: collect_step_def split: prod.splits)
  then show ?thesis by (simp add: collect_def)
qed

lemma foldl_collect_step:
  "distinct (map fst rows) \<Longrightarrow>
   foldl collect_step m rows c =
     (if c \<noteq> [] then (case map_of rows c of Some v \<Rightarrow> Some v | None \<Rightarrow> m c) else m c)"
proof (induction rows arbitrary: m)
  case Nil
  then show ?case by simp
next
  case (Cons x rows)
  obtain cur t n where x: "x = (cur, t, n)" by (cases x)
  from Cons.prems have nin: "cur \<notin> fst ` set rows" and d: "distinct (map fst rows)"
    by (simp_all add: x)
  from nin have none: "map_of rows cur = None"
    by (simp add: map_of_eq_None_iff)
  show ?case
    using Cons.IH[OF d, of "collect_step m x"] none
    by (auto simp: x collect_step_def split: option.splits)
qed

lemma initial_data_empty [simp]: "initial_data [] = None"
  by (simp add: initial_data_def)

lemma collect_sum_by_currency: "collect (sum_by_currency rs) = summed rs"
proof
  fix c
  have d: "distinct (map fst (sum_by_currency rs))"
    by (simp add: sum_by_currency_def comp_def)
  have m: "map_of (sum_by_currency rs) c =
      (if c \<in> currency ` set rs
       then Some (sum_list (map total (filter (\<lambda>r. currency r = c) rs)),
                  sum_list (map invoices (filter (\<lambda>r. currency r = c) rs)))
       else None)"
    by (simp add: sum_by_currency_def map_of_map_restrict restrict_map_def)
  show "collect (sum_by_currency rs) c = summed rs c"
    unfolding collect_foldl foldl_collect_step[OF d] m
    by (simp add: summed_def)
qed

lemma map_of_triples:
  "distinct (map currency rows) \<Longrightarrow>
   map_of (map (\<lambda>r. (currency r, total r, invoices r)) rows) c =
     (if c \<in> currency ` set rows
      then Some (sum_list (map total (filter (\<lambda>r. currency r = c) rows)),
                 sum_list (map invoices (filter (\<lambda>r. currency r = c) rows)))
      else None)"
proof (induction rows)
  case Nil
  then show ?case by simp
next
  case (Cons r rows)
  then have "currency r \<notin> currency ` set rows" and "distinct (map currency rows)"
    by simp_all
  moreover from this have "filter (\<lambda>x. currency x = currency r) rows = []"
    by (induction rows) auto
  ultimately show ?case
    using Cons.IH by (cases "c = currency r") simp_all
qed

lemma collect_triples:
  assumes "distinct (map currency rows)"
  shows "collect (map (\<lambda>r. (currency r, total r, invoices r)) rows) = summed rows"
proof
  fix c
  have d: "distinct (map fst (map (\<lambda>r. (currency r, total r, invoices r)) rows))"
    using assms by (simp add: comp_def)
  show "collect (map (\<lambda>r. (currency r, total r, invoices r)) rows) c = summed rows c"
    unfolding collect_foldl foldl_collect_step[OF d] map_of_triples[OF assms]
    by (simp add: summed_def)
qed

lemma filter_currency_none: "c \<notin> currency ` set rs \<Longrightarrow> filter (\<lambda>r. currency r = c) rs = []"
  by (induction rs) auto

lemma initial_data_Some: "initial_data c = Some v \<Longrightarrow> v = (0, 0)"
  by (auto simp: initial_data_def split: if_splits)

lemma summed_append:
  assumes "summed B c = Some (t, n)"
  shows "summed (A @ B) c =
     Some (t + fst (case summed A c of None \<Rightarrow> (0, 0) | Some v \<Rightarrow> v),
           n + snd (case summed A c of None \<Rightarrow> (0, 0) | Some v \<Rightarrow> v))"
proof -
  from assms have c: "c \<noteq> []" by (auto simp: summed_def)
  show ?thesis
  proof (cases "c \<in> currency ` set B")
    case inB: True
    with assms c have t: "t = sum_list (map total (filter (\<lambda>r. currency r = c) B))"
      and n: "n = sum_list (map invoices (filter (\<lambda>r. currency r = c) B))"
      by (simp_all add: summed_def)
    show ?thesis
    proof (cases "c \<in> currency ` set A")
      case True
      with inB c show ?thesis by (simp add: summed_def t n image_Un)
    next
      case False
      then have "filter (\<lambda>r. currency r = c) A = []" by (rule filter_currency_none)
      with False inB c show ?thesis
        by (cases "initial_data c") (auto simp: summed_def t n image_Un dest: initial_data_Some)
    qed
  next
    case notB: False
    then have fB: "filter (\<lambda>r. currency r = c) B = []" by (rule filter_currency_none)
    from assms c notB have i: "initial_data c = Some (t, n)" by (simp add: summed_def)
    then have z: "t = 0" "n = 0"
      by (auto dest: initial_data_Some)
    show ?thesis
    proof (cases "c \<in> currency ` set A")
      case True
      with notB c show ?thesis by (simp add: summed_def z fB image_Un)
    next
      case False
      with notB c i show ?thesis by (simp add: summed_def z image_Un filter_currency_none)
    qed
  qed
qed

subsection \<open>Closing a shift\<close>

lemma strftime_date_nonempty: "strftime_date d \<noteq> []"
  by (simp add: strftime_date_def pad4_def pad2_def)

lemma classifier_nonempty:
  "get_shift_and_business_date a clock = Inr (sh, biz) \<Longrightarrow> sh \<noteq> [] \<and> biz \<noteq> []"
  by (auto simp: get_shift_and_business_date_def Let_def strftime_date_nonempty
      split: if_splits sum.splits)

lemma at_shift_zeroed [simp]: "at_shift cid d s (zeroed r) = at_shift cid d s r"
  by (simp add: at_shift_def zeroed_def)

lemma at_shift_at_date: "at_shift cid d s r \<Longrightarrow> at_date cid d r"
  by (simp add: at_shift_def at_date_def)

lemma filter_at_date_at_shift:
  "filter (at_date cid d) (filter (at_shift cid d s) rs) = filter (at_shift cid d s) rs"
  by (induction rs) (auto dest: at_shift_at_date)

lemma filter_at_shift_at_date:
  "filter (\<lambda>x. at_shift cid d s x \<and> at_date cid d x) rs = filter (at_shift cid d s) rs"
  by (induction rs) (auto dest: at_shift_at_date)

lemma archive_copy:
  "map (\<lambda>r. \<lparr>chat_id = cid, date_col = d, shift = s, currency = currency r,
              total = total r, invoices = invoices r\<rparr>)
       (filter (at_shift cid d s) rs) = filter (at_shift cid d s) rs"
  by (induction rs) (auto simp: at_shift_def)

lemma zero_none:
  "filter (at_shift cid d s) rs = [] \<Longrightarrow>
   map (\<lambda>r. if at_shift cid d s r then zeroed r else r) rs = rs"
  by (induction rs) (auto split: if_splits)

lemma old_totals_move_to_old:
  "old_totals (move_to_old cid s d db) = old_totals db @ filter (at_shift cid d s) (totals db)"
  by (simp add: move_to_old_def Let_def archive_copy)

lemma totals_move_to_old:
  "totals (move_to_old cid s d db) =
     map (\<lambda>r. if at_shift cid d s r then zeroed r else r) (totals db)"
  by (simp add: move_to_old_def Let_def zero_none zeroed_def[abs_def])

lemma history_move_to_old: "history (move_to_old cid s d db) = history db"
  by (simp add: move_to_old_def Let_def)

lemma filter_at_shift_zeroed:
  "filter (at_shift cid d s) (map (\<lambda>r. if at_shift cid d s r then zeroed r else r) rs)
     = map zeroed (filter (at_shift cid d s) rs)"
  by (induction rs) auto

lemmas db_eval_defs = update_total_def move_to_old_def get_totals_def get_old_totals_def
  handle_message_new_data_def collect_foldl collect_step_def sum_by_currency_def initial_data_def
  date_or_today_def row_key_def history_key_def at_shift_def at_date_def next_id_def
  empty_db_def usd_row_def usd_entry_def db_one_record_def db_first_closed_def
  db_second_shift_def shown_def state_after_def primary_key_ok_def Let_def

lemma scenario_1: "update_total 1 ''USD'' 5 (at_time 2024 1 1 7 0 0 0) empty_db = Inr db_one_record"
  by (simp add: eval_defs db_eval_defs)

lemma scenario_2: "move_to_old 1 ''shift1'' ''2024-01-01'' db_one_record = db_first_closed"
  by (simp add: db_eval_defs)

lemma scenario_2': "state_after (handle_message_new_data 1 (at_time 2024 1 1 7 5 0 0) db_one_record) = Some db_first_closed"
  by (simp add: eval_defs db_eval_defs)

lemma scenario_3: "update_total 1 ''USD'' 3 (at_time 2024 1 1 19 0 0 0) db_first_closed = Inr db_second_shift"
  by (simp add: eval_defs db_eval_defs)

lemma scenario_4: "shown (handle_message_new_data 1 (at_time 2024 1 1 19 5 0 0) db_second_shift) ''USD'' = Some (8, 2)"
  by (simp add: eval_defs db_eval_defs)

lemma scenario_5: "old_totals (move_to_old 1 ''shift1'' ''2024-01-01'' db_first_closed) = [usd_row ''shift1'' 5 1, usd_row ''shift1'' 0 0]"
  by (simp add: db_eval_defs)

text \<open>
  C6 (as amended).  \<^verbatim>\<open>move_to_old\<close> appends to \<^verbatim>\<open>old_totals\<close> one row for every row of
  \<^verbatim>\<open>totals\<close> at (chat_id, date, shift), whatever its invoice count, and is a no-op when
  there is no such row.  A second call right after the first appends these rows once
  more, now with total 0 and invoice count 0.
\<close>

theorem move_to_old_archives_every_row:
  "old_totals (move_to_old cid s d db) = old_totals db @ filter (at_shift cid d s) (totals db)
   \<and> (filter (at_shift cid d s) (totals db) = [] \<longrightarrow> move_to_old cid s d db = db)
   \<and> old_totals (move_to_old cid s d (move_to_old cid s d db))
       = old_totals db @ filter (at_shift cid d s) (totals db)
           @ map (\<lambda>r. r\<lparr>total := 0, invoices := 0\<rparr>) (filter (at_shift cid d s) (totals db))"
proof (intro conjI impI)
  show "old_totals (move_to_old cid s d db)
      = old_totals db @ filter (at_shift cid d s) (totals db)"
    by (rule old_totals_move_to_old)
  show "move_to_old cid s d db = db" if "filter (at_shift cid d s) (totals db) = []"
    using that by (simp add: move_to_old_def)
  show "old_totals (move_to_old cid s d (move_to_old cid s d db))
      = old_totals db @ filter (at_shift cid d s) (totals db)
          @ map (\<lambda>r. r\<lparr>total := 0, invoices := 0\<rparr>) (filter (at_shift cid d s) (totals db))"
    by (simp add: old_totals_move_to_old totals_move_to_old filter_at_shift_zeroed
        zeroed_def[abs_def])
qed

text \<open>C6, on a database without a row for shift2, where closing shift2 changes nothing.\<close>

theorem move_to_old_archives_every_row_witness:
  "filter (at_shift 1 ''2024-01-01'' ''shift2'') (totals db_first_closed) = []
   \<and> move_to_old 1 ''shift2'' ''2024-01-01'' db_first_closed = db_first_closed
   \<and> old_totals (move_to_old 1 ''shift1'' ''2024-01-01'' db_one_record) = [usd_row ''shift1'' 5 1]"
  using move_to_old_archives_every_row[of 1 "''shift2''" "''2024-01-01''" db_first_closed]
    move_to_old_archives_every_row[of 1 "''shift1''" "''2024-01-01''" db_one_record]
  by (simp add: db_eval_defs)

text \<open>
  C6 as stated fails.  One record of 5 USD at 07:00 and a first close of shift1 leave the
  \<^verbatim>\<open>totals\<close> row in place with total 0 and invoice count 0; a second close without any
  record in between finds that row and appends a zero-valued row to \<^verbatim>\<open>old_totals\<close>.
\<close>

theorem close_twice_counterexample:
  "update_total 1 ''USD'' 5 (at_time 2024 1 1 7 0 0 0) empty_db = Inr db_one_record
   \<and> move_to_old 1 ''shift1'' ''2024-01-01'' db_one_record = db_first_closed
   \<and> totals db_first_closed = [usd_row ''shift1'' 0 0]
   \<and> old_totals db_first_closed = [usd_row ''shift1'' 5 1]
   \<and> old_totals (move_to_old 1 ''shift1'' ''2024-01-01'' db_first_closed)
       = [usd_row ''shift1'' 5 1, usd_row ''shift1'' 0 0]"
  using scenario_1 scenario_2 scenario_5 by (simp add: db_first_closed_def)

lemma get_old_totals_summed:
  "d \<noteq> [] \<Longrightarrow> get_old_totals cid (Some d) clock db = summed (filter (at_date cid d) (old_totals db))"
  by (simp add: get_old_totals_def date_or_today_def collect_sum_by_currency)

lemma distinct_currency_at_shift:
  assumes "primary_key_ok rs"
  shows "distinct (map currency (filter (at_shift cid d s) rs))"
  using assms unfolding primary_key_ok_def
proof (induction rs)
  case Nil
  then show ?case by simp
next
  case (Cons r rs)
  then have IH: "distinct (map currency (filter (at_shift cid d s) rs))"
    and new: "row_key r \<notin> row_key ` set rs"
    by simp_all
  show ?case
  proof (cases "at_shift cid d s r")
    case True
    have "currency r \<notin> currency ` set (filter (at_shift cid d s) rs)"
    proof
      assume "currency r \<in> currency ` set (filter (at_shift cid d s) rs)"
      then obtain x where "x \<in> set rs" "at_shift cid d s x" "currency x = currency r"
        by auto
      with True have "row_key x = row_key r" "x \<in> set rs"
        by (simp_all add: row_key_def at_shift_def)
      with new show False by (metis imageI)
    qed
    with True IH show ?thesis by simp
  next
    case False
    with IH show ?thesis by simp
  qed
qed

lemma get_totals_shift_summed:
  "d \<noteq> [] \<Longrightarrow> s \<noteq> [] \<Longrightarrow> primary_key_ok (totals db) \<Longrightarrow>
   get_totals cid (Some d) (Some s) clock db = summed (filter (at_shift cid d s) (totals db))"
  by (simp add: get_totals_def date_or_today_def collect_triples distinct_currency_at_shift)

lemma foldl_collect_step_zero:
  "\<forall>x \<in> set rows. snd x = (0, 0) \<Longrightarrow> \<forall>c v. m c = Some v \<longrightarrow> v = (0, 0) \<Longrightarrow>
   foldl collect_step m rows c = Some v \<Longrightarrow> v = (0, 0)"
proof (induction rows arbitrary: m)
  case Nil
  then show ?case by (cases v) auto
next
  case (Cons x rows)
  have step: "\<forall>c v. collect_step m x c = Some v \<longrightarrow> v = (0, 0)"
    using Cons.prems(1,2) by (cases x) (auto simp: collect_step_def)
  have rest: "\<forall>x \<in> set rows. snd x = (0, 0)"
    using Cons.prems(1) by simp
  have "foldl collect_step (collect_step m x) rows c = Some v"
    using Cons.prems(3) by simp
  with rest step show ?case by (rule Cons.IH)
qed

lemma foldl_collect_step_keeps:
  "m c \<noteq> None \<Longrightarrow> foldl collect_step m rows c \<noteq> None"
  by (induction rows arbitrary: m) (auto simp: collect_step_def)

lemma get_totals_after_move:
  assumes "d \<noteq> []" "s \<noteq> []"
  shows "get_totals cid (Some d) (Some s) clock (move_to_old cid s d db)
    = collect (map (\<lambda>r. (currency r, 0, 0)) (filter (at_shift cid d s) (totals db)))"
  using assms
  by (simp add: get_totals_def date_or_today_def totals_move_to_old filter_at_shift_zeroed
      comp_def zeroed_def)

lemma get_totals_after_move_zero:
  assumes "d \<noteq> []" "s \<noteq> []"
    and "get_totals cid (Some d) (Some s) clock (move_to_old cid s d db) c = Some v"
  shows "v = (0, 0)"
proof -
  have f: "foldl collect_step initial_data
      (map (\<lambda>r. (currency r, 0, 0)) (filter (at_shift cid d s) (totals db))) c = Some v"
    using assms by (simp add: get_totals_after_move collect_foldl)
  have i: "\<forall>c v. initial_data c = Some v \<longrightarrow> v = (0, 0)"
    using initial_data_Some by blast
  have z: "\<forall>x \<in> set (map (\<lambda>r. (currency r, 0::real, 0::int))
      (filter (at_shift cid d s) (totals db))). snd x = (0, 0)"
    by simp
  from z i f show ?thesis by (rule foldl_collect_step_zero)
qed

lemma get_totals_after_move_default:
  assumes "d \<noteq> []" "s \<noteq> []" and "c = ''USD'' \<or> c = ''KHR''"
  shows "get_totals cid (Some d) (Some s) clock (move_to_old cid s d db) c = Some (0, 0)"
proof -
  have "initial_data c \<noteq> None" using assms(3) by (auto simp: initial_data_def)
  then have "get_totals cid (Some d) (Some s) clock (move_to_old cid s d db) c \<noteq> None"
    unfolding get_totals_after_move[OF assms(1,2)] collect_foldl
    by (rule foldl_collect_step_keeps)
  then obtain v where "get_totals cid (Some d) (Some s) clock (move_to_old cid s d db) c = Some v"
    by auto
  with get_totals_after_move_zero[OF assms(1,2) this] show ?thesis by simp
qed

lemma get_old_totals_after_move:
  assumes "d \<noteq> []"
  shows "get_old_totals cid (Some d) clock (move_to_old cid s d db)
    = summed (filter (at_date cid d) (old_totals db) @ filter (at_shift cid d s) (totals db))"
  using assms
  by (simp add: get_old_totals_summed old_totals_move_to_old filter_at_shift_at_date)

text \<open>
  C8.  For every database (whose \<^verbatim>\<open>totals\<close> table respects its primary key) and every
  non-empty date and shift: right after \<^verbatim>\<open>move_to_old\<close>, \<^verbatim>\<open>get_totals\<close> for that shift
  reports total 0 and count 0 for every currency of its result, USD and KHR among them;
  and whatever \<^verbatim>\<open>get_totals\<close> reported for a currency before the close has been added to
  what \<^verbatim>\<open>get_old_totals\<close> reports for that currency and date.
\<close>

theorem close_then_totals_zero_and_archived:
  assumes "d \<noteq> []" and "s \<noteq> []" and "primary_key_ok (totals db)"
  shows "(\<forall>c v. get_totals cid (Some d) (Some s) clock (move_to_old cid s d db) c = Some v
            \<longrightarrow> v = (0, 0))
    \<and> get_totals cid (Some d) (Some s) clock (move_to_old cid s d db) ''USD'' = Some (0, 0)
    \<and> get_totals cid (Some d) (Some s) clock (move_to_old cid s d db) ''KHR'' = Some (0, 0)
    \<and> (\<forall>c t n. get_totals cid (Some d) (Some s) clock db c = Some (t, n) \<longrightarrow>
          get_old_totals cid (Some d) clock (move_to_old cid s d db) c =
            Some (t + fst (case get_old_totals cid (Some d) clock db c of
                             None \<Rightarrow> (0, 0) | Some v \<Rightarrow> v),
                  n + snd (case get_old_totals cid (Some d) clock db c of
                             None \<Rightarrow> (0, 0) | Some v \<Rightarrow> v)))"
proof (intro conjI allI impI)
  fix c v
  assume "get_totals cid (Some d) (Some s) clock (move_to_old cid s d db) c = Some v"
  with assms(1,2) show "v = (0, 0)" by (rule get_totals_after_move_zero)
next
  show "get_totals cid (Some d) (Some s) clock (move_to_old cid s d db) ''USD'' = Some (0, 0)"
    using assms(1,2) by (rule get_totals_after_move_default) simp
next
  show "get_totals cid (Some d) (Some s) clock (move_to_old cid s d db) ''KHR'' = Some (0, 0)"
    using assms(1,2) by (rule get_totals_after_move_default) simp
next
  fix c t n
  assume "get_totals cid (Some d) (Some s) clock db c = Some (t, n)"
  then have "summed (filter (at_shift cid d s) (totals db)) c = Some (t, n)"
    using assms by (simp add: get_totals_shift_summed)
  then show "get_old_totals cid (Some d) clock (move_to_old cid s d db) c =
      Some (t + fst (case get_old_totals cid (Some d) clock db c of
                       None \<Rightarrow> (0, 0) | Some v \<Rightarrow> v),
            n + snd (case get_old_totals cid (Some d) clock db c of
                       None \<Rightarrow> (0, 0) | Some v \<Rightarrow> v))"
    unfolding get_old_totals_after_move[OF assms(1), of cid clock s db]
    unfolding get_old_totals_summed[OF assms(1), of cid clock db]
    by (rule summed_append)
qed

text \<open>C8, closing shift2 (3 USD, one invoice) after shift1 (5 USD, one invoice) was archived.\<close>

theorem close_then_totals_zero_and_archived_witness:
  "''2024-01-01'' \<noteq> [] \<and> ''shift2'' \<noteq> [] \<and> primary_key_ok (totals db_second_shift)
   \<and> get_totals 1 (Some ''2024-01-01'') (Some ''shift2'') (at_time 2024 1 1 19 5 0 0)
        db_second_shift ''USD'' = Some (3, 1)
   \<and> get_old_totals 1 (Some ''2024-01-01'') (at_time 2024 1 1 19 5 0 0)
        db_second_shift ''USD'' = Some (5, 1)
   \<and> get_totals 1 (Some ''2024-01-01'') (Some ''shift2'') (at_time 2024 1 1 19 5 0 0)
        (move_to_old 1 ''shift2'' ''2024-01-01'' db_second_shift) ''USD'' = Some (0, 0)
   \<and> get_old_totals 1 (Some ''2024-01-01'') (at_time 2024 1 1 19 5 0 0)
        (move_to_old 1 ''shift2'' ''2024-01-01'' db_second_shift) ''USD'' = Some (8, 2)"
  using close_then_totals_zero_and_archived[of "''2024-01-01''" "''shift2''" db_second_shift 1
      "at_time 2024 1 1 19 5 0 0"]
  by (simp add: db_eval_defs)

text \<open>
  C7 (as amended).  The branch \<^verbatim>\<open>"New Data"\<close> of \<^verbatim>\<open>handle_message\<close> moves the current shift
  to \<^verbatim>\<open>old_totals\<close> and shows, per currency, the sums over all \<^verbatim>\<open>old_totals\<close> rows of the
  chat and business date: the rows of earlier closes and of other shifts together with
  the rows moved by this call.
\<close>

theorem new_data_shows_whole_archive:
  assumes "get_shift_and_business_date None clock = Inr (sh, biz)"
  shows "handle_message_new_data cid clock db =
     Inr (summed (filter (at_date cid biz) (old_totals db) @ filter (at_shift cid biz sh) (totals db)),
          move_to_old cid sh biz db)"
proof -
  from assms have "biz \<noteq> []" by (auto dest: classifier_nonempty)
  then show ?thesis
    using assms by (simp add: handle_message_new_data_def get_old_totals_after_move)
qed


text \<open>C7, at 2024-01-01 19:05:00.\<close>

theorem new_data_shows_whole_archive_witness:
  "get_shift_and_business_date None (at_time 2024 1 1 19 5 0 0) = Inr (''shift2'', ''2024-01-01'')
   \<and> handle_message_new_data 1 (at_time 2024 1 1 19 5 0 0) db_second_shift =
       Inr (summed (filter (at_date 1 ''2024-01-01'') (old_totals db_second_shift)
                     @ filter (at_shift 1 ''2024-01-01'' ''shift2'') (totals db_second_shift)),
            move_to_old 1 ''shift2'' ''2024-01-01'' db_second_shift)"
  using new_data_shows_whole_archive[of "at_time 2024 1 1 19 5 0 0" "''shift2''" "''2024-01-01''"
      1 db_second_shift]
  by (simp add: eval_defs)

text \<open>
  C7 as stated fails.  After 5 USD in shift1, a close at 07:05, and 3 USD in shift2, the
  close at 19:05 moves the single row of shift2 (3 USD, one invoice) and shows 8 USD and
  two invoices: the archived row of shift1 is counted as well.
\<close>

theorem new_data_accumulates_counterexample:
  "update_total 1 ''USD'' 5 (at_time 2024 1 1 7 0 0 0) empty_db = Inr db_one_record
   \<and> state_after (handle_message_new_data 1 (at_time 2024 1 1 7 5 0 0) db_one_record)
       = Some db_first_closed
   \<and> update_total 1 ''USD'' 3 (at_time 2024 1 1 19 0 0 0) db_first_closed = Inr db_second_shift
   \<and> filter (at_shift 1 ''2024-01-01'' ''shift2'') (totals db_second_shift)
       = [usd_row ''shift2'' 3 1]
   \<and> shown (handle_message_new_data 1 (at_time 2024 1 1 19 5 0 0) db_second_shift) ''USD''
       = Some (8, 2)"
  using scenario_1 scenario_2' scenario_3 scenario_4
  by (simp add: db_second_shift_def at_shift_def usd_row_def)

section \<open>Recalculation\<close>

text \<open>
  C2.  \<^verbatim>\<open>recalc_totals_from_history\<close> is idempotent: run twice in a row it leaves the
  database it leaves when run once, so every later query returns the same dictionary.
\<close>

theorem recalc_idempotent:
  "recalc_totals_from_history (recalc_totals_from_history db) = recalc_totals_from_history db
   \<and> get_totals cid date_arg shift_arg clock
        (recalc_totals_from_history (recalc_totals_from_history db))
       = get_totals cid date_arg shift_arg clock (recalc_totals_from_history db)"
  by (simp add: recalc_totals_from_history_def)

section \<open>The calendar date and the business date\<close>

lemma lt10_cases:
  "(a::nat) < 10 \<Longrightarrow> a \<in> {0, 1, 2, 3, 4, 5, 6, 7, 8, 9}"
  by (simp add: numeral_eq_Suc less_Suc_eq)

lemma of_char_digit: "a < 10 \<Longrightarrow> (of_char (digit a) :: nat) = 48 + a"
  by (drule lt10_cases) (auto simp: digit_def)

lemma digit_inj: "a < 10 \<Longrightarrow> b < 10 \<Longrightarrow> digit a = digit b \<Longrightarrow> a = b"
proof -
  assume a: "a < 10" and b: "b < 10" and e: "digit a = digit b"
  have "(48::nat) + a = of_char (digit a)" using a by (rule of_char_digit[symmetric])
  also have "\<dots> = of_char (digit b)" by (simp only: e)
  also have "\<dots> = 48 + b" using b by (rule of_char_digit)
  finally show ?thesis by (simp only: add_left_cancel)
qed

lemma pad2_eqD:
  "pad2 a = pad2 b \<Longrightarrow>
   digit (a div 10 mod 10) = digit (b div 10 mod 10) \<and> digit (a mod 10) = digit (b mod 10)"
  unfolding pad2_def list.inject by (elim conjE) (intro conjI; assumption)

lemma pad2_inj: "a < 100 \<Longrightarrow> b < 100 \<Longrightarrow> pad2 a = pad2 b \<Longrightarrow> a = b"
proof -
  assume a: "a < 100" and b: "b < 100" and e: "pad2 a = pad2 b"
  from pad2_eqD[OF e] have e1: "digit (a div 10 mod 10) = digit (b div 10 mod 10)"
    and e2: "digit (a mod 10) = digit (b mod 10)"
    by blast+
  have d1: "a div 10 mod 10 = b div 10 mod 10"
    by (rule digit_inj[OF _ _ e1]) simp_all
  have d2: "a mod 10 = b mod 10"
    by (rule digit_inj[OF _ _ e2]) simp_all
  have "a div 10 < 10" "b div 10 < 10" using a b by simp_all
  with d1 have d3: "a div 10 = b div 10" by simp
  have "a = 10 * (a div 10) + a mod 10" by simp
  also have "\<dots> = 10 * (b div 10) + b mod 10" by (simp only: d2 d3)
  also have "\<dots> = b" by simp
  finally show ?thesis .
qed

lemma length_pad2 [simp]: "length (pad2 n) = 2"
  by (simp add: pad2_def)

lemma pad4_inj: "a < 10000 \<Longrightarrow> b < 10000 \<Longrightarrow> pad4 a = pad4 b \<Longrightarrow> a = b"
proof -
  assume a: "a < 10000" and b: "b < 10000" and e: "pad4 a = pad4 b"
  from e have e1: "pad2 (a div 100 mod 100) = pad2 (b div 100 mod 100)"
    and e2: "pad2 (a mod 100) = pad2 (b mod 100)"
    by (simp_all add: pad4_def)
  have d1: "a div 100 mod 100 = b div 100 mod 100"
    by (rule pad2_inj[OF _ _ e1]) simp_all
  have d2: "a mod 100 = b mod 100"
    by (rule pad2_inj[OF _ _ e2]) simp_all
  have "a div 100 < 100" "b div 100 < 100" using a b by simp_all
  with d1 have d3: "a div 100 = b div 100" by simp
  have "a = 100 * (a div 100) + a mod 100" by simp
  also have "\<dots> = 100 * (b div 100) + b mod 100" by (simp only: d2 d3)
  also have "\<dots> = b" by simp
  finally show ?thesis .
qed

lemma length_pad4 [simp]: "length (pad4 n) = 4"
  by (simp add: pad4_def)

lemma append_eq_same_length:
  "length xs = length ys \<Longrightarrow> xs @ us = ys @ vs \<Longrightarrow> xs = ys \<and> us = vs"
  by simp
lemma strftime_date_eqD:
  assumes "strftime_date d = strftime_date e"
  shows "pad4 (year d) = pad4 (year e) \<and> pad2 (month d) = pad2 (month e)
    \<and> pad2 (day d) = pad2 (day e)"
proof -
  have l4: "length (pad4 (year d)) = length (pad4 (year e))" by simp
  have l2: "length (pad2 (month d)) = length (pad2 (month e))" by simp
  have l1: "length ''-'' = length ''-''" by simp
  from assms have "pad4 (year d) @ (''-'' @ pad2 (month d) @ ''-'' @ pad2 (day d))
     = pad4 (year e) @ (''-'' @ pad2 (month e) @ ''-'' @ pad2 (day e))"
    by (simp only: strftime_date_def)
  from append_eq_same_length[OF l4 this] have a: "pad4 (year d) = pad4 (year e)"
    and "''-'' @ (pad2 (month d) @ ''-'' @ pad2 (day d)) = ''-'' @ (pad2 (month e) @ ''-'' @ pad2 (day e))"
    by blast+
  from append_eq_same_length[OF l1 this(2)]
  have "pad2 (month d) @ (''-'' @ pad2 (day d)) = pad2 (month e) @ (''-'' @ pad2 (day e))"
    by blast
  from append_eq_same_length[OF l2 this] have b: "pad2 (month d) = pad2 (month e)"
    and "''-'' @ pad2 (day d) = ''-'' @ pad2 (day e)"
    by blast+
  from append_eq_same_length[OF l1 this(2)] have c: "pad2 (day d) = pad2 (day e)"
    by blast
  from a b c show ?thesis by blast
qed

lemma days_in_month_le: "days_in_month y m \<le> 31"
  by (simp add: days_in_month_def)

lemma minus_one_day_fields:
  assumes "minus_one_day d = Inr y"
  shows "(1 < day d \<and> day y = day d - 1)
    \<or> (day d \<le> 1 \<and> 1 < month d \<and> month y = month d - 1)
    \<or> (day d \<le> 1 \<and> month d \<le> 1 \<and> 1 < year d \<and> year y = year d - 1)"
proof (cases "1 < day d")
  case True
  with assms have "y = d\<lparr>day := day d - 1\<rparr>" by (simp add: minus_one_day_def)
  then have "day y = day d - 1" by simp
  with True show ?thesis by blast
next
  case d1: False
  show ?thesis
  proof (cases "1 < month d")
    case True
    with d1 assms have "y = d\<lparr>month := month d - 1, day := days_in_month (year d) (month d - 1)\<rparr>"
      by (simp add: minus_one_day_def)
    then have "month y = month d - 1" by simp
    with True d1 show ?thesis by simp
  next
    case m1: False
    show ?thesis
    proof (cases "1 < year d")
      case True
      with d1 m1 assms have "y = \<lparr>year = year d - 1, month = 12, day = 31\<rparr>"
        by (simp add: minus_one_day_def)
      then have "year y = year d - 1" by simp
      with True d1 m1 show ?thesis by simp
    next
      case False
      with d1 m1 assms show ?thesis by (simp add: minus_one_day_def)
    qed
  qed
qed

lemma strftime_previous_day:
  assumes v: "valid_date d" and y: "minus_one_day d = Inr y"
  shows "strftime_date y \<noteq> strftime_date d"
proof
  assume "strftime_date y = strftime_date d"
  from strftime_date_eqD[OF this]
  have p4: "pad4 (year y) = pad4 (year d)" and pm: "pad2 (month y) = pad2 (month d)"
    and pd: "pad2 (day y) = pad2 (day d)" by blast+
  from v have b: "year d \<le> 9999" "month d \<le> 12" "day d \<le> 31"
    using days_in_month_le[of "year d" "month d"] by (simp_all add: valid_date_def)
  from minus_one_day_fields[OF y] consider
      (day) "1 < day d" "day y = day d - 1"
    | (month) "1 < month d" "month y = month d - 1"
    | (year) "1 < year d" "year y = year d - 1"
    by blast
  then show False
  proof cases
    case day
    have "day y = day d"
      by (rule pad2_inj[OF _ _ pd]) (use day b in simp_all)
    with day show False by simp
  next
    case month
    have "month y = month d"
      by (rule pad2_inj[OF _ _ pm]) (use month b in simp_all)
    with month show False by simp
  next
    case year
    have "year y = year d"
      by (rule pad4_inj[OF _ _ p4]) (use year b in simp_all)
    with year show False by simp
  qed
qed

lemma classifier_now_arg:
  "get_shift_and_business_date (Some clock) clock = get_shift_and_business_date None clock"
  by (simp add: get_shift_and_business_date_def)

lemma update_total_Inr:
  assumes "get_shift_and_business_date None clock = Inr (sh, biz)"
  shows "\<exists>db'. update_total cid cur amt clock db = Inr db'
    \<and> history db' = history db @ [\<lparr>h_id = next_id (history db), h_chat_id = cid,
          h_datetime = strftime_datetime clock, h_business_date = biz, h_shift = sh,
          h_currency = cur, h_amount = amt\<rparr>]"
  using assms by (simp add: update_total_def classifier_now_arg Let_def)



section \<open>The ledger\<close>

lemma strftime_whole_second: "strftime_datetime (whole_second dt) = strftime_datetime dt"
  by (simp add: strftime_datetime_def whole_second_def)

lemma tests_whole_second:
  assumes "\<not> inside_closing_second t"
  shows "in_shift1 (t\<lparr>microsecond := 0\<rparr>) = in_shift1 t"
    and "in_shift2 (t\<lparr>microsecond := 0\<rparr>) = in_shift2 t"
    and "in_shift3_evening (t\<lparr>microsecond := 0\<rparr>) = in_shift3_evening t"
    and "in_shift3_morning (t\<lparr>microsecond := 0\<rparr>) = in_shift3_morning t"
  using assms by (auto simp: inside_closing_second_def shift_tests shift_bounds)

lemma classify_whole_second:
  assumes "\<not> inside_closing_second (time_part dt)"
  shows "get_shift_and_business_date (Some (whole_second dt)) c'
    = get_shift_and_business_date (Some dt) c"
  by (simp add: get_shift_and_business_date_def whole_second_def tests_whole_second[OF assms] Let_def)

lemma history_recalc [simp]: "history (recalc_totals_from_history d) = history d"
  by (simp add: recalc_totals_from_history_def)

lemma history_new_data:
  "handle_message_new_data cid clock d = Inr (res, d') \<Longrightarrow> history d' = history d"
  by (auto simp: handle_message_new_data_def history_move_to_old Let_def split: sum.splits)

lemma history_reset:
  "handle_message_reset cid clock d = Inr d' \<Longrightarrow> history d' = history d"
  by (auto simp: handle_message_reset_def Let_def split: sum.splits)

lemma history_update_total:
  assumes "update_total cid cur amt clock d = Inr d'"
  shows "\<exists>sh biz. get_shift_and_business_date (Some clock) clock = Inr (sh, biz)
    \<and> history d' = history d @ [\<lparr>h_id = next_id (history d), h_chat_id = cid,
          h_datetime = strftime_datetime clock, h_business_date = biz, h_shift = sh,
          h_currency = cur, h_amount = amt\<rparr>]"
  using assms by (auto simp: update_total_def Let_def split: sum.splits)

lemma history_step:
  assumes "h \<in> set (history (step d x))"
  shows "h \<in> set (history d) \<or> written_by h [x]"
proof (cases x)
  case (Pair opn clock)
  show ?thesis
  proof (cases opn)
    case (UpdateTotal cid cur amt)
    show ?thesis
    proof (cases "update_total cid cur amt clock d")
      case (Inl e)
      with assms Pair UpdateTotal show ?thesis by simp
    next
      case (Inr d')
      from history_update_total[OF Inr] obtain sh biz where
        c: "get_shift_and_business_date (Some clock) clock = Inr (sh, biz)"
        and hd: "history d' = history d @ [\<lparr>h_id = next_id (history d), h_chat_id = cid,
          h_datetime = strftime_datetime clock, h_business_date = biz, h_shift = sh,
          h_currency = cur, h_amount = amt\<rparr>]"
        by blast
      from assms Pair UpdateTotal Inr have "h \<in> set (history d')" by simp
      with hd have "h \<in> set (history d) \<or> h = \<lparr>h_id = next_id (history d), h_chat_id = cid,
          h_datetime = strftime_datetime clock, h_business_date = biz, h_shift = sh,
          h_currency = cur, h_amount = amt\<rparr>"
        by auto
      then show ?thesis
      proof
        assume "h \<in> set (history d)"
        then show ?thesis by simp
      next
        assume "h = \<lparr>h_id = next_id (history d), h_chat_id = cid,
          h_datetime = strftime_datetime clock, h_business_date = biz, h_shift = sh,
          h_currency = cur, h_amount = amt\<rparr>"
        with c have "written_by h [x]"
          unfolding written_by_def Pair UpdateTotal by (intro exI[of _ clock]) simp
        then show ?thesis by simp
      qed
    qed
  next
    case (NewData cid)
    with assms Pair show ?thesis
      by (auto split: sum.splits dest: history_new_data)
  next
    case (Reset cid)
    with assms Pair show ?thesis
      by (auto split: sum.splits dest: history_reset)
  next
    case Recalc
    with assms Pair show ?thesis by simp
  qed
qed

lemma written_by_mono: "written_by h ops \<Longrightarrow> set ops \<subseteq> set ops' \<Longrightarrow> written_by h ops'"
  unfolding written_by_def by blast

lemma history_run:
  "h \<in> set (history (run d ops)) \<Longrightarrow> h \<in> set (history d) \<or> written_by h ops"
proof (induction ops arbitrary: h rule: rev_induct)
  case Nil
  then show ?case by (simp add: run_def)
next
  case (snoc x ops)
  then have "h \<in> set (history (step (run d ops) x))" by (simp add: run_def)
  from history_step[OF this] show ?case
  proof
    assume "h \<in> set (history (run d ops))"
    from snoc.IH[OF this] show ?thesis
      by (auto intro: written_by_mono)
  next
    assume "written_by h [x]"
    then have "written_by h (ops @ [x])" by (rule written_by_mono) simp
    then show ?thesis by simp
  qed
qed

text \<open>
  C9 (as amended).  After any sequence of operations on the empty database, every ledger
  entry was written by an \<^verbatim>\<open>update_total\<close> call of the sequence: its shift and business
  date are what the classifier returns for the clock reading of that call, and its
  timestamp is that reading cut to whole seconds.  The classifier returns the same pair
  for the stored timestamp unless the reading lies strictly inside the second 18:00:00
  or the second 22:00:00.
\<close>

theorem entry_carries_classification_of_its_reading:
  assumes "h \<in> set (history (run empty_db ops))"
  shows "\<exists>clock. (UpdateTotal (h_chat_id h) (h_currency h) (h_amount h), clock) \<in> set ops
     \<and> h_datetime h = strftime_datetime (whole_second clock)
     \<and> get_shift_and_business_date (Some clock) clock = Inr (h_shift h, h_business_date h)
     \<and> (\<not> inside_closing_second (time_part clock) \<longrightarrow>
          get_shift_and_business_date (Some (whole_second clock)) (whole_second clock)
            = Inr (h_shift h, h_business_date h))"
proof -
  from history_run[OF assms] have "written_by h ops" by (simp add: empty_db_def)
  then obtain clock where
    a: "(UpdateTotal (h_chat_id h) (h_currency h) (h_amount h), clock) \<in> set ops"
    and b: "h_datetime h = strftime_datetime clock"
    and c: "get_shift_and_business_date (Some clock) clock = Inr (h_shift h, h_business_date h)"
    unfolding written_by_def by blast
  have "\<not> inside_closing_second (time_part clock) \<longrightarrow>
      get_shift_and_business_date (Some (whole_second clock)) (whole_second clock)
        = Inr (h_shift h, h_business_date h)"
  proof
    assume "\<not> inside_closing_second (time_part clock)"
    from classify_whole_second[OF this, of "whole_second clock" clock] c
    show "get_shift_and_business_date (Some (whole_second clock)) (whole_second clock)
        = Inr (h_shift h, h_business_date h)"
      by simp
  qed
  with a b c show ?thesis
    by (intro exI[of _ clock]) (simp add: strftime_whole_second)
qed

lemmas run_eval_defs = run_def whole_second_def inside_closing_second_def

text \<open>C9, for one record at 2024-01-01 07:00:00.250000.\<close>

theorem entry_carries_classification_of_its_reading_witness:
  "usd_entry 1 ''2024-01-01 07:00:00'' ''shift1'' 5
     \<in> set (history (run empty_db [(UpdateTotal 1 ''USD'' 5, at_time 2024 1 1 7 0 0 250000)]))
   \<and> strftime_datetime (whole_second (at_time 2024 1 1 7 0 0 250000)) = ''2024-01-01 07:00:00''
   \<and> \<not> inside_closing_second (time_part (at_time 2024 1 1 7 0 0 250000))
   \<and> get_shift_and_business_date (Some (whole_second (at_time 2024 1 1 7 0 0 250000)))
        (whole_second (at_time 2024 1 1 7 0 0 250000)) = Inr (''shift1'', ''2024-01-01'')"
  using entry_carries_classification_of_its_reading[of
      "usd_entry 1 ''2024-01-01 07:00:00'' ''shift1'' 5"
      "[(UpdateTotal 1 ''USD'' 5, at_time 2024 1 1 7 0 0 250000)]"]
  by (simp add: eval_defs db_eval_defs run_eval_defs)

text \<open>
  C9 as stated fails.  A record at 2024-01-01 22:00:00.500000 is later than
  \<^verbatim>\<open>SHIFT2_END\<close>, so it is classified as shift3; the entry keeps the timestamp
  2024-01-01 22:00:00, and for that timestamp the classifier returns shift2.
\<close>

theorem stored_second_classified_otherwise_counterexample:
  "history (run empty_db [(UpdateTotal 1 ''USD'' 5, at_time 2024 1 1 22 0 0 500000)])
     = [usd_entry 1 ''2024-01-01 22:00:00'' ''shift3'' 5]
   \<and> valid_datetime (at_time 2024 1 1 22 0 0 500000)
   \<and> strftime_datetime (at_time 2024 1 1 22 0 0 0) = ''2024-01-01 22:00:00''
   \<and> get_shift_and_business_date (Some (at_time 2024 1 1 22 0 0 0)) (at_time 2024 1 1 22 0 0 0)
       = Inr (''shift2'', ''2024-01-01'')"
  by (simp add: eval_defs db_eval_defs run_eval_defs)

section \<open>Running totals and the ledger\<close>

lemma find_append_key:
  "find P (xs @ ys) = (case find P xs of None \<Rightarrow> find P ys | Some x \<Rightarrow> Some x)"
  by (induction xs) auto

lemma find_map_key:
  assumes "\<And>x. row_key (f x) = row_key x"
  shows "find (\<lambda>r. row_key r = k) (map f rs) = map_option f (find (\<lambda>r. row_key r = k) rs)"
  by (induction rs) (auto simp: assms)

lemma filter_key_none:
  "k \<notin> history_key ` set hs \<Longrightarrow> filter (\<lambda>h. history_key h = k) hs = []"
  by (induction hs) auto

lemma ledger_totals_snoc:
  "ledger_totals (hs @ [e]) k =
     (if k = history_key e
      then Some (sum_list (map h_amount (filter (\<lambda>h. history_key h = k) hs)) + h_amount e,
                 int (length (filter (\<lambda>h. history_key h = k) hs)) + 1)
      else ledger_totals hs k)"
  by (auto simp: ledger_totals_def)

lemma ledger_totals_Some:
  "ledger_totals hs k = Some (t, n) \<Longrightarrow>
   t = sum_list (map h_amount (filter (\<lambda>h. history_key h = k) hs))
   \<and> n = int (length (filter (\<lambda>h. history_key h = k) hs))"
  by (auto simp: ledger_totals_def split: if_splits)

lemma ledger_totals_None:
  "ledger_totals hs k = None \<Longrightarrow> filter (\<lambda>h. history_key h = k) hs = []"
  by (auto simp: ledger_totals_def filter_key_none split: if_splits)

lemma consistent_empty: "consistent empty_db"
  by (simp add: consistent_def empty_db_def primary_key_ok_def aggregate_row_def
      ledger_totals_def)

lemma update_total_consistent:
  assumes inv: "consistent d" and upd: "update_total cid cur amt clock d = Inr d'"
  shows "consistent d'"
proof -
  from upd obtain sh biz where
    c: "get_shift_and_business_date (Some clock) clock = Inr (sh, biz)"
    by (auto simp: update_total_def split: sum.splits)
  define k0 where "k0 = (cid, biz, sh, cur)"
  define e where "e = \<lparr>h_id = next_id (history d), h_chat_id = cid,
      h_datetime = strftime_datetime clock, h_business_date = biz, h_shift = sh,
      h_currency = cur, h_amount = amt\<rparr>"
  have ke: "history_key e = k0" and ae: "h_amount e = amt"
    by (simp_all add: e_def k0_def history_key_def)
  from inv have pk: "primary_key_ok (totals d)"
    and agg0: "\<forall>k. aggregate_row (totals d) k = ledger_totals (history d) k"
    unfolding consistent_def by blast+
  from agg0 have agg: "aggregate_row (totals d) k = ledger_totals (history d) k" for k
    by blast
  show ?thesis
  proof (cases "find (\<lambda>r. row_key r = k0) (totals d)")
    case None
    define new where "new = \<lparr>chat_id = cid, date_col = biz, shift = sh, currency = cur,
        total = amt, invoices = 1\<rparr>"
    have kn: "row_key new = k0" by (simp add: new_def k0_def row_key_def)
    have tn: "total new = amt" "invoices new = 1" by (simp_all add: new_def)
    from upd c None have d': "d' = d\<lparr>history := history d @ [e], totals := totals d @ [new]\<rparr>"
      by (simp add: update_total_def Let_def k0_def e_def new_def)
    from None have fresh: "k0 \<notin> set (map row_key (totals d))"
      by (auto simp: find_None_iff)
    from None have "aggregate_row (totals d) k0 = None" by (simp add: aggregate_row_def)
    then have "ledger_totals (history d) k0 = None" by (simp add: agg)
    then have noold: "filter (\<lambda>h. history_key h = k0) (history d) = []"
      by (rule ledger_totals_None)
    have "primary_key_ok (totals d')"
      using pk fresh by (simp add: d' primary_key_ok_def kn)
    moreover have "aggregate_row (totals d') k = ledger_totals (history d') k" for k
    proof (cases "k = k0")
      case True
      with None noold show ?thesis
        by (simp add: d' aggregate_row_def find_append_key kn ledger_totals_snoc ke ae tn)
    next
      case False
      then have "aggregate_row (totals d') k = aggregate_row (totals d) k"
        by (simp add: d' aggregate_row_def find_append_key kn split: option.splits)
      with agg[of k] False show ?thesis
        by (simp add: d' ledger_totals_snoc ke)
    qed
    ultimately show ?thesis unfolding consistent_def by blast
  next
    case (Some r0)
    define f where "f = (\<lambda>x. if row_key x = k0
        then x\<lparr>total := total r0 + amt, invoices := invoices r0 + 1\<rparr> else x)"
    have kf: "row_key (f x) = row_key x" for x by (simp add: f_def row_key_def)
    from upd c Some have d': "d' = d\<lparr>history := history d @ [e], totals := map f (totals d)\<rparr>"
      by (simp add: update_total_def Let_def k0_def e_def f_def)
    from Some have "aggregate_row (totals d) k0 = Some (total r0, invoices r0)"
      by (simp add: aggregate_row_def)
    then have "ledger_totals (history d) k0 = Some (total r0, invoices r0)" by (simp add: agg)
    from ledger_totals_Some[OF this]
    have old: "total r0 = sum_list (map h_amount (filter (\<lambda>h. history_key h = k0) (history d)))"
      "invoices r0 = int (length (filter (\<lambda>h. history_key h = k0) (history d)))"
      by simp_all
    have mk: "map row_key (map f (totals d)) = map row_key (totals d)"
      by (simp add: kf comp_def)
    have td': "totals d' = map f (totals d)" by (simp add: d')
    from pk have "primary_key_ok (totals d')"
      unfolding primary_key_ok_def td' mk .
    moreover have "aggregate_row (totals d') k = ledger_totals (history d') k" for k
    proof (cases "k = k0")
      case True
      from Some have "row_key r0 = k0" by (auto simp: find_Some_iff)
      then have fr: "total (f r0) = total r0 + amt" "invoices (f r0) = invoices r0 + 1"
        by (simp_all add: f_def)
      have "find (\<lambda>r. row_key r = k0) (map f (totals d)) = Some (f r0)"
        unfolding find_map_key[of f, OF kf] Some by simp
      then have "aggregate_row (totals d') k0 = Some (total r0 + amt, invoices r0 + 1)"
        by (simp add: aggregate_row_def td' fr)
      moreover have "ledger_totals (history d') k0 = Some (total r0 + amt, invoices r0 + 1)"
        by (simp add: d' ledger_totals_snoc ke ae old)
      ultimately show ?thesis using True by simp
    next
      case False
      have "find (\<lambda>r. row_key r = k) (map f (totals d))
          = map_option f (find (\<lambda>r. row_key r = k) (totals d))"
        by (rule find_map_key[OF kf])
      moreover have "map_option (\<lambda>r. (total r, invoices r)) (map_option f x)
          = map_option (\<lambda>r. (total r, invoices r)) x"
        if "\<And>r. x = Some r \<Longrightarrow> row_key r = k" for x
        using that False by (cases x) (auto simp: f_def)
      moreover have "row_key r = k" if "find (\<lambda>r. row_key r = k) (totals d) = Some r" for r
        using that by (auto simp: find_Some_iff)
      ultimately have "aggregate_row (totals d') k = aggregate_row (totals d) k"
        by (simp add: d' aggregate_row_def)
      with agg[of k] False show ?thesis
        by (simp add: d' ledger_totals_snoc ke)
    qed
    ultimately show ?thesis unfolding consistent_def by blast
  qed
qed

lemma step_update_consistent:
  "consistent d \<Longrightarrow> consistent (step d (UpdateTotal cid cur amt, clock))"
  by (cases "update_total cid cur amt clock d") (auto intro: update_total_consistent)

lemma run_record_calls_consistent:
  "consistent d \<Longrightarrow> consistent (run d (record_calls cs))"
proof (induction cs arbitrary: d)
  case Nil
  then show ?case by (simp add: run_def record_calls_def)
next
  case (Cons c cs)
  obtain cid cur amt clock where c: "c = (cid, cur, amt, clock)" by (cases c)
  have "run d (record_calls (c # cs))
      = run (step d (UpdateTotal cid cur amt, clock)) (record_calls cs)"
    by (simp add: run_def record_calls_def c)
  with Cons.IH[OF step_update_consistent[OF Cons.prems]] show ?case by simp
qed

lemma row_key_grouped:
  "map row_key (select_history_grouped hs) = remdups (map history_key hs)"
  by (simp add: select_history_grouped_def comp_def row_key_def case_prod_beta)

lemma primary_key_ok_grouped: "primary_key_ok (select_history_grouped hs)"
  by (simp add: primary_key_ok_def row_key_grouped)

lemma foldl_insert_or_replace:
  "distinct (map row_key (acc @ rows)) \<Longrightarrow>
   foldl (\<lambda>acc r. insert_or_replace r acc) acc rows = acc @ rows"
proof (induction rows arbitrary: acc)
  case Nil
  then show ?case by simp
next
  case (Cons r rows)
  from Cons.prems have "row_key r \<notin> row_key ` set acc" by auto
  then have "filter (\<lambda>x. row_key x \<noteq> row_key r) acc = acc"
    by (induction acc) auto
  then have i: "insert_or_replace r acc = acc @ [r]" by (simp add: insert_or_replace_def)
  from Cons.prems have "distinct (map row_key ((acc @ [r]) @ rows))" by simp
  from Cons.IH[OF this] i show ?case by simp
qed

lemma totals_recalc:
  "totals (recalc_totals_from_history d) = select_history_grouped (history d)"
proof -
  have "distinct (map row_key ([] @ select_history_grouped (history d)))"
    using primary_key_ok_grouped by (simp add: primary_key_ok_def)
  from foldl_insert_or_replace[OF this] show ?thesis
    by (simp add: recalc_totals_from_history_def)
qed

lemma find_grouped:
  "find (\<lambda>r. row_key r = k) (map f ks) = (if k \<in> set ks then Some (f k) else None)"
  if "\<And>x. row_key (f x) = x"
  by (induction ks) (auto simp: that)

lemma aggregate_row_grouped:
  "aggregate_row (select_history_grouped hs) k = ledger_totals hs k"
proof -
  define f where "f = (\<lambda>(cid, biz, sh, cur).
       \<lparr>chat_id = cid, date_col = biz, shift = sh, currency = cur,
        total = sum_list (map h_amount (filter (\<lambda>h. history_key h = (cid, biz, sh, cur)) hs)),
        invoices = int (length (filter (\<lambda>h. history_key h = (cid, biz, sh, cur)) hs))\<rparr>)"
  have kf: "row_key (f x) = x" for x
    by (cases x) (simp add: f_def row_key_def)
  have tf: "total (f x) = sum_list (map h_amount (filter (\<lambda>h. history_key h = x) hs))"
    "invoices (f x) = int (length (filter (\<lambda>h. history_key h = x) hs))" for x
    by (cases x; simp add: f_def)+
  have "select_history_grouped hs = map f (remdups (map history_key hs))"
    by (simp add: select_history_grouped_def f_def)
  then show ?thesis
    by (simp add: aggregate_row_def find_grouped[of f, OF kf] ledger_totals_def tf)
qed

lemma consistent_recalc: "consistent (recalc_totals_from_history d)"
  unfolding consistent_def
  by (simp add: totals_recalc primary_key_ok_grouped aggregate_row_grouped)

lemma aggregate_row_member:
  assumes "primary_key_ok rs" and "r \<in> set rs"
  shows "find (\<lambda>x. row_key x = row_key r) rs = Some r"
  using assms unfolding primary_key_ok_def
proof (induction rs)
  case Nil
  then show ?case by simp
next
  case (Cons a rs)
  show ?case
  proof (cases "a = r")
    case True
    then show ?thesis by simp
  next
    case False
    with Cons.prems have r: "r \<in> set rs" and "row_key a \<notin> row_key ` set rs" by auto
    then have "row_key a \<noteq> row_key r" by auto
    with Cons.IH r Cons.prems show ?thesis by simp
  qed
qed

lemma same_rows_subset:
  assumes "primary_key_ok A"
    and "\<forall>k. aggregate_row A k = aggregate_row B k"
  shows "set A \<subseteq> set B"
proof
  fix r assume "r \<in> set A"
  with assms(1) have "find (\<lambda>x. row_key x = row_key r) A = Some r"
    by (rule aggregate_row_member)
  then have "aggregate_row A (row_key r) = Some (total r, invoices r)"
    by (simp add: aggregate_row_def)
  with assms(2) have "aggregate_row B (row_key r) = Some (total r, invoices r)"
    by metis
  then obtain r' where f: "find (\<lambda>x. row_key x = row_key r) B = Some r'"
    and t: "total r' = total r" "invoices r' = invoices r"
    by (auto simp: aggregate_row_def)
  from f have "r' \<in> set B" and "row_key r' = row_key r"
    by (auto simp: find_Some_iff)
  with t have "r' = r" by (simp add: row_key_def)
  with \<open>r' \<in> set B\<close> show "r \<in> set B" by simp
qed

lemma same_rows_mset:
  assumes "primary_key_ok A" and "primary_key_ok B"
    and "\<forall>k. aggregate_row A k = aggregate_row B k"
  shows "mset A = mset B"
proof -
  from assms(3) have sym: "\<forall>k. aggregate_row B k = aggregate_row A k" by metis
  have "set A = set B"
    using same_rows_subset[OF assms(1,3)] same_rows_subset[OF assms(2) sym] by blast
  moreover from assms(1,2) have "distinct A" "distinct B"
    by (auto simp: primary_key_ok_def distinct_map)
  ultimately show ?thesis by (simp add: set_eq_iff_mset_eq_distinct)
qed



end
